theory Spec2Isabelle
  imports Complex_Main "HOL-Library.AList"
begin

section \<open>The weighted pool of \<open>infinity_pool.cpp\<close>\<close>

text \<open>
  The class \<open>InfinityPool\<close> keeps a vector of token names, two hash maps from token name
  to \<open>double\<close> (weights and balances) and two scalars.  The embedding below follows the
  source function by function.

  \<^item> A \<open>double\<close> is a \<open>real\<close>: finite values, no rounding.  NaN, the infinities and
    underflow have no counterpart: where C++ divides by zero or calls \<open>std::pow\<close> outside
    the arguments listed at \<open>pow\<close>, the model yields some real number (\<open>x / 0 = 0\<close>)
    instead.  The statements on the invariant and on the ratio check exclude such
    arguments by a hypothesis; the statements on guards, errors and frames do not depend
    on the values computed.  Where rounding decides what the code does (a quotient that
    underflows, a difference that rounds back), the binary64 value is stated with
    \<open>round_double\<close>, and order statements are the ones that survive rounding.
  \<^item> A \<open>std::unordered_map<std::string, double>\<close> is an association list with distinct
    keys, read in the order in which the map is iterated.  Where a key is missing,
    \<open>operator[]\<close> inserts it with value \<open>0.0\<close>, and \<open>at\<close> throws \<open>std::out_of_range\<close>.
    The place a new key takes in the iteration order is left open by C++; the model
    appends it.
  \<^item> A member function is a function from the pool (and the arguments) to a pair of the
    outcome and the pool it leaves behind.  An exception is an \<open>Inl\<close> outcome, and the
    pool of the pair holds every write made before the throw.
  \<^item> Within one expression the reads \<open>m[k]\<close> are taken in one fixed order; the order
    C++ leaves open only decides where two missing keys are appended.
\<close>

subsection \<open>Data\<close>

type_synonym token = string

type_synonym dmap = "(token \<times> real) list"

datatype error = InvalidArgument | OutOfRange | UndefinedBehavior

record pool =
  tokens :: "token list"
  weights :: dmap
  balances :: dmap
  shares_issued :: real
  invariant :: real

definition SUPPLY :: real where
  "SUPPLY = 10 ^ 15"

definition FIRST :: real where
  "FIRST = 10 ^ 8"

subsection \<open>Map and arithmetic primitives\<close>

text \<open>\<open>m.at(k)\<close>: the stored value, or \<open>std::out_of_range\<close>.\<close>

definition at_key :: "dmap \<Rightarrow> token \<Rightarrow> error + real" where
  "at_key m k = (case map_of m k of None \<Rightarrow> Inl OutOfRange | Some v \<Rightarrow> Inr v)"

text \<open>\<open>m[k]\<close> read as a value: the stored value and the map, which gains the key with
  value \<open>0\<close> when it was missing.\<close>

definition subscript :: "dmap \<Rightarrow> token \<Rightarrow> real \<times> dmap" where
  "subscript m k =
     (case map_of m k of
        Some v \<Rightarrow> (v, m)
      | None \<Rightarrow> (0, AList.update k 0 m))"

text \<open>\<open>m[k] += x\<close>.\<close>

definition add_at :: "dmap \<Rightarrow> token \<Rightarrow> real \<Rightarrow> dmap" where
  "add_at m k x = (let (v, m') = subscript m k in AList.update k (v + x) m')"

text \<open>\<open>std::accumulate\<close> of the values of a map, from \<open>0.0\<close>.\<close>

definition sum_values :: "dmap \<Rightarrow> real" where
  "sum_values m = foldl (\<lambda>s (k, v). s + v) 0 m"

text \<open>\<open>std::pow\<close> where its result is a finite real: a positive base, a zero base with
  an exponent that is not negative, and any base with exponent zero.\<close>

definition pow :: "real \<Rightarrow> real \<Rightarrow> real" where
  "pow x y = (if x = 0 \<and> y = 0 then 1 else x powr y)"

text \<open>The three-iterator \<open>std::equal\<close>: it walks the first range, stops with \<open>false\<close> at
  the first pair that fails the predicate, and reads past the end of the second range
  when that one is shorter.\<close>

fun std_equal :: "('a \<Rightarrow> 'b \<Rightarrow> bool) \<Rightarrow> 'a list \<Rightarrow> 'b list \<Rightarrow> error + bool" where
  "std_equal P [] ys = Inr True"
| "std_equal P (x # xs) [] = Inl UndefinedBehavior"
| "std_equal P (x # xs) (y # ys) = (if P x y then std_equal P xs ys else Inr False)"

subsection \<open>Constructor, \<open>initialize\<close>, \<open>set_invariant\<close>\<close>

definition InfinityPool :: "token list \<Rightarrow> error + pool" where
  "InfinityPool ts =
     (if length ts < 2 then Inl InvalidArgument
      else Inr \<lparr>tokens = ts, weights = [], balances = [], shares_issued = 0, invariant = 0\<rparr>)"

text \<open>The loop of \<open>initialize\<close> over \<open>tokens\<close>.  The right-hand side of the assignment
  is evaluated first, so a missing key throws before \<open>weights[token]\<close> is touched.\<close>

fun initialize_loop :: "token list \<Rightarrow> dmap \<Rightarrow> pool \<Rightarrow> (error + unit) \<times> pool" where
  "initialize_loop [] amount_in p = (Inr (), p)"
| "initialize_loop (t # ts) amount_in p =
     (case at_key amount_in t of
        Inl e \<Rightarrow> (Inl e, p)
      | Inr v \<Rightarrow>
          initialize_loop ts amount_in
            (p\<lparr>weights := AList.update t (v / sum_values amount_in) (weights p)\<rparr>))"

definition initialize :: "pool \<Rightarrow> dmap \<Rightarrow> (error + unit) \<times> pool" where
  "initialize p amount_in =
     (if length amount_in \<noteq> length (tokens p) then (Inl InvalidArgument, p)
      else if list_ex (\<lambda>(k, v). v \<le> 0) amount_in then (Inl InvalidArgument, p)
      else
        (case initialize_loop (tokens p) amount_in (p\<lparr>balances := amount_in\<rparr>) of
           (Inl e, p') \<Rightarrow> (Inl e, p')
         | (Inr u, p') \<Rightarrow> (Inr (), p'\<lparr>shares_issued := FIRST\<rparr>)))"

fun set_invariant_loop :: "token list \<Rightarrow> pool \<Rightarrow> pool" where
  "set_invariant_loop [] p = p"
| "set_invariant_loop (t # ts) p =
     (let (b, bs) = subscript (balances p) t;
          (w, ws) = subscript (weights p) t
      in set_invariant_loop ts
           (p\<lparr>weights := ws, balances := bs, invariant := invariant p * pow b w\<rparr>))"

definition set_invariant :: "pool \<Rightarrow> real \<times> pool" where
  "set_invariant p =
     (let p' = set_invariant_loop (tokens p) (p\<lparr>invariant := 1\<rparr>)
      in (invariant p', p'))"

subsection \<open>Deposits\<close>

definition ratio_vector :: "dmap \<Rightarrow> real list" where
  "ratio_vector m = map (\<lambda>(k, v). v / sum_values m) m"

definition check_deposit_ratio :: "pool \<Rightarrow> dmap \<Rightarrow> real \<Rightarrow> error + bool" where
  "check_deposit_ratio p amount_in tolerance =
     (let existing_ratio = ratio_vector (balances p);
          deposit_ratio = ratio_vector amount_in
      in std_equal (\<lambda>a b. \<bar>a - b\<bar> < tolerance) existing_ratio deposit_ratio)"

text \<open>The loop \<open>balances[entry.first] += entry.second\<close> over the entries of a map.\<close>

fun add_entries :: "dmap \<Rightarrow> dmap \<Rightarrow> dmap" where
  "add_entries [] bs = bs"
| "add_entries ((k, v) # es) bs = add_entries es (add_at bs k v)"

text \<open>The value returned by \<open>deposit_all\<close> and \<open>deposit_any\<close>:
  \<open>amount_in.at(tokens[0]) * SUPPLY / balances.at(tokens[0])\<close>.\<close>

definition shares_of_first :: "pool \<Rightarrow> dmap \<Rightarrow> (error + real) \<times> pool" where
  "shares_of_first p amount_in =
     (case tokens p of
        [] \<Rightarrow> (Inl UndefinedBehavior, p)
      | t0 # ts \<Rightarrow>
          (case at_key amount_in t0 of
             Inl e \<Rightarrow> (Inl e, p)
           | Inr a \<Rightarrow>
               (case at_key (balances p) t0 of
                  Inl e \<Rightarrow> (Inl e, p)
                | Inr b \<Rightarrow> (Inr (a * SUPPLY / b), p))))"

definition deposit_all :: "pool \<Rightarrow> dmap \<Rightarrow> (error + real) \<times> pool" where
  "deposit_all p amount_in =
     (if list_ex (\<lambda>(k, v). v \<le> 0) amount_in then (Inl InvalidArgument, p)
      else if weights p = [] then
        (case check_deposit_ratio p amount_in (1 / 10 ^ 6) of
           Inl e \<Rightarrow> (Inl e, p)
         | Inr False \<Rightarrow> (Inl InvalidArgument, p)
         | Inr True \<Rightarrow>
             shares_of_first (p\<lparr>balances := add_entries amount_in (balances p)\<rparr>) amount_in)
      else
        (case check_deposit_ratio p amount_in (1 / 10 ^ 6) of
           Inl e \<Rightarrow> (Inl e, p)
         | Inr False \<Rightarrow> (Inl InvalidArgument, p)
         | Inr True \<Rightarrow>
             shares_of_first
               (snd (set_invariant (p\<lparr>balances := add_entries amount_in (balances p)\<rparr>)))
               amount_in))"

definition deposit_one :: "pool \<Rightarrow> dmap \<Rightarrow> (error + real) \<times> pool" where
  "deposit_one p amount_in =
     (if weights p = [] then (Inl InvalidArgument, p)
      else if length (filter (\<lambda>(k, v). v \<noteq> 0) amount_in) \<noteq> 1 then (Inl InvalidArgument, p)
      else
        (case find (\<lambda>(k, v). v \<noteq> 0) amount_in of
           None \<Rightarrow> (Inl UndefinedBehavior, p)
         | Some (t_key, v0) \<Rightarrow>
             (case at_key amount_in t_key of
                Inl e \<Rightarrow> (Inl e, p)
              | Inr a \<Rightarrow>
                  if a < 0 then (Inl InvalidArgument, p)
                  else
                    (case at_key (balances p) t_key of
                       Inl e \<Rightarrow> (Inl e, p)
                     | Inr b \<Rightarrow>
                         (let shares_to_issue = a * SUPPLY / b;
                              p' = p\<lparr>balances := AList.update t_key (b + a) (balances p)\<rparr>
                          in (Inr shares_to_issue, snd (set_invariant p')))))))"

definition deposit_any :: "pool \<Rightarrow> dmap \<Rightarrow> (error + real) \<times> pool" where
  "deposit_any p amount_in =
     (if weights p = [] then (Inl InvalidArgument, p)
      else
        (case check_deposit_ratio p amount_in (1 / 10 ^ 6) of
           Inl e \<Rightarrow> (Inl e, p)
         | Inr False \<Rightarrow> (Inl InvalidArgument, p)
         | Inr True \<Rightarrow>
             shares_of_first
               (snd (set_invariant (p\<lparr>balances := add_entries amount_in (balances p)\<rparr>)))
               amount_in))"

subsection \<open>Withdrawals\<close>

fun withdraw_all_loop :: "token list \<Rightarrow> real \<Rightarrow> dmap \<Rightarrow> pool \<Rightarrow> dmap \<times> pool" where
  "withdraw_all_loop [] redeem_ratio amount_out p = (amount_out, p)"
| "withdraw_all_loop (t # ts) redeem_ratio amount_out p =
     (let (b, bs) = subscript (balances p) t;
          (w, ws) = subscript (weights p) t;
          out = b * (1 - pow (shares_issued p - redeem_ratio) (1 / w))
      in withdraw_all_loop ts redeem_ratio (AList.update t out amount_out)
           (p\<lparr>weights := ws, balances := AList.update t (b - out) bs\<rparr>))"

definition withdraw_all :: "pool \<Rightarrow> real \<Rightarrow> (error + dmap) \<times> pool" where
  "withdraw_all p redeem =
     (if redeem \<le> 0 then (Inl InvalidArgument, p)
      else
        (let redeem_ratio = redeem / SUPPLY
         in if redeem_ratio > shares_issued p then (Inl InvalidArgument, p)
            else
              (let (amount_out, p') = withdraw_all_loop (tokens p) redeem_ratio [] p;
                   p'' = p'\<lparr>shares_issued := shares_issued p' - redeem_ratio\<rparr>
               in (Inr amount_out, snd (set_invariant p'')))))"

definition withdraw_one :: "pool \<Rightarrow> token \<Rightarrow> real \<Rightarrow> (error + real) \<times> pool" where
  "withdraw_one p t redeem =
     (if weights p = [] then (Inl InvalidArgument, p)
      else if redeem \<le> 0 then (Inl InvalidArgument, p)
      else
        (let redeem_ratio = redeem / SUPPLY
         in if redeem_ratio > shares_issued p then (Inl InvalidArgument, p)
            else
              (let (b, bs) = subscript (balances p) t;
                   (w, ws) = subscript (weights p) t;
                   amount_out = b * (1 - pow (shares_issued p - redeem_ratio) (1 / w));
                   p' = p\<lparr>weights := ws, balances := AList.update t (b - amount_out) bs,
                          shares_issued := shares_issued p - redeem_ratio\<rparr>
               in (Inr amount_out, snd (set_invariant p')))))"

fun withdraw_any_loop ::
  "token list \<Rightarrow> real \<Rightarrow> dmap \<Rightarrow> dmap \<Rightarrow> pool \<Rightarrow> (error + dmap) \<times> pool" where
  "withdraw_any_loop [] redeem_ratio ratios amount_out p = (Inr amount_out, p)"
| "withdraw_any_loop (t # ts) redeem_ratio ratios amount_out p =
     (case at_key ratios t of
        Inl e \<Rightarrow> (Inl e, p)
      | Inr r \<Rightarrow>
          (let out = r * redeem_ratio;
               (b, bs) = subscript (balances p) t
           in withdraw_any_loop ts redeem_ratio ratios (AList.update t out amount_out)
                (p\<lparr>balances := AList.update t (b - out) bs\<rparr>)))"

definition withdraw_any :: "pool \<Rightarrow> real \<Rightarrow> dmap \<Rightarrow> (error + dmap) \<times> pool" where
  "withdraw_any p redeem ratios =
     (if weights p = [] then (Inl InvalidArgument, p)
      else
        (case check_deposit_ratio p ratios (1 / 10 ^ 6) of
           Inl e \<Rightarrow> (Inl e, p)
         | Inr False \<Rightarrow> (Inl InvalidArgument, p)
         | Inr True \<Rightarrow>
             if redeem \<le> 0 then (Inl InvalidArgument, p)
             else
               (let redeem_ratio = redeem / SUPPLY
                in if redeem_ratio > shares_issued p then (Inl InvalidArgument, p)
                   else
                     (case withdraw_any_loop (tokens p) redeem_ratio ratios [] p of
                        (Inl e, p') \<Rightarrow> (Inl e, p')
                      | (Inr amount_out, p') \<Rightarrow>
                          (Inr amount_out,
                           snd (set_invariant
                                  (p'\<lparr>shares_issued := shares_issued p' - redeem_ratio\<rparr>)))))))"

subsection \<open>\<open>swap\<close> and \<open>equalize\<close>\<close>

text \<open>The balance test of \<open>swap\<close> reads \<open>balances[t_in]\<close>, so a token that is not yet a
  key is inserted even when the call then throws.\<close>

definition swap :: "pool \<Rightarrow> token \<Rightarrow> token \<Rightarrow> real \<Rightarrow> (error + real) \<times> pool" where
  "swap p t_in t_out amount_in =
     (if weights p = [] then (Inl InvalidArgument, p)
      else if amount_in \<le> 0 then (Inl InvalidArgument, p)
      else
        (let (b_in, bs1) = subscript (balances p) t_in
         in if b_in < amount_in then (Inl InvalidArgument, p\<lparr>balances := bs1\<rparr>)
            else
              (let (b_out, bs2) = subscript bs1 t_out;
                   (b_in', bs3) = subscript bs2 t_in;
                   (w_in, ws1) = subscript (weights p) t_in;
                   (w_out, ws2) = subscript ws1 t_out;
                   amount_out = b_out * (1 - pow ((b_in' - amount_in) / b_in') (w_in / w_out));
                   bs4 = add_at bs3 t_in (- amount_in);
                   bs5 = add_at bs4 t_out amount_out;
                   p' = p\<lparr>weights := ws2, balances := bs5\<rparr>
               in (Inr amount_out, snd (set_invariant p')))))"

text \<open>\<open>std::accumulate\<close> over the entries of \<open>weights\<close> with \<open>inputs.at\<close> of each key.\<close>

fun total_weight :: "dmap \<Rightarrow> dmap \<Rightarrow> real \<Rightarrow> error + real" where
  "total_weight [] inputs acc = Inr acc"
| "total_weight ((k, w) # ws) inputs acc =
     (case at_key inputs k of
        Inl e \<Rightarrow> Inl e
      | Inr x \<Rightarrow> total_weight ws inputs (acc + w * x))"

fun equalize_loop ::
  "token list \<Rightarrow> real \<Rightarrow> dmap \<Rightarrow> dmap \<Rightarrow> pool \<Rightarrow> (error + dmap) \<times> pool" where
  "equalize_loop [] total_weight_in inputs amount_out p = (Inr amount_out, p)"
| "equalize_loop (t # ts) total_weight_in inputs amount_out p =
     (let (b, bs) = subscript (balances p) t;
          (w, ws) = subscript (weights p) t;
          out = b * (pow (total_weight_in / w) (1 / w) - 1);
          p1 = p\<lparr>weights := ws, balances := bs\<rparr>
      in case at_key inputs t of
           Inl e \<Rightarrow> (Inl e, p1)
         | Inr x \<Rightarrow>
             equalize_loop ts total_weight_in inputs (AList.update t out amount_out)
               (p1\<lparr>balances := add_at bs t x\<rparr>))"

definition equalize :: "pool \<Rightarrow> dmap \<Rightarrow> dmap \<Rightarrow> (error + dmap) \<times> pool" where
  "equalize p inputs ratio_out =
     (if weights p = [] then (Inl InvalidArgument, p)
      else
        (case check_deposit_ratio p inputs (1 / 10 ^ 6) of
           Inl e \<Rightarrow> (Inl e, p)
         | Inr False \<Rightarrow> (Inl InvalidArgument, p)
         | Inr True \<Rightarrow>
             (case check_deposit_ratio p ratio_out (1 / 10 ^ 6) of
                Inl e \<Rightarrow> (Inl e, p)
              | Inr False \<Rightarrow> (Inl InvalidArgument, p)
              | Inr True \<Rightarrow>
                  (case total_weight (weights p) inputs 0 of
                     Inl e \<Rightarrow> (Inl e, p)
                   | Inr total_weight_in \<Rightarrow>
                       (case equalize_loop (tokens p) total_weight_in inputs [] p of
                          (Inl e, p') \<Rightarrow> (Inl e, p')
                        | (Inr amount_out, p') \<Rightarrow>
                            (Inr amount_out, snd (set_invariant p')))))))"

subsection \<open>Notions used in the statements\<close>

text \<open>The value a map holds for a key, \<open>0\<close> where the key is missing: what \<open>m[k]\<close>
  evaluates to.\<close>

definition value_of :: "dmap \<Rightarrow> token \<Rightarrow> real" where
  "value_of m k = (case map_of m k of Some v \<Rightarrow> v | None \<Rightarrow> 0)"



text \<open>The pool of two tokens after \<open>initialize({X: 100, Y: 100})\<close>.\<close>

definition pool_xy :: pool where
  "pool_xy =
     \<lparr>tokens = [''X'', ''Y''],
      weights = [(''X'', 1 / 2), (''Y'', 1 / 2)],
      balances = [(''X'', 100), (''Y'', 100)],
      shares_issued = FIRST,
      invariant = 0\<rparr>"

text \<open>The pool of two tokens after \<open>initialize({X: 100, Y: 200})\<close>.\<close>

definition pool_skew :: pool where
  "pool_skew =
     \<lparr>tokens = [''X'', ''Y''],
      weights = [(''X'', 1 / 3), (''Y'', 2 / 3)],
      balances = [(''X'', 100), (''Y'', 200)],
      shares_issued = FIRST,
      invariant = 0\<rparr>"

text \<open>The pool right after \<open>InfinityPool({"X", "Y"})\<close>.\<close>

definition pool_new :: pool where
  "pool_new =
     \<lparr>tokens = [''X'', ''Y''], weights = [], balances = [], shares_issued = 0, invariant = 0\<rparr>"


text \<open>Binary64 rounding, to nearest with ties to even, for the two statements that depend
  on it: \<open>binade x\<close> is the exponent of the binade of \<open>x\<close>, not below that of the
  subnormal numbers, and the doubles of that binade are the multiples of
  \<open>2 ^ (binade x - 52)\<close>.  Overflow is left out.\<close>

definition round_even :: "real \<Rightarrow> int" where
  "round_even y =
     (let n = \<lfloor>y\<rfloor>; d = y - of_int n
      in if d < 1 / 2 then n else if 1 / 2 < d then n + 1 else if even n then n else n + 1)"

definition binade :: "real \<Rightarrow> int" where
  "binade x = max \<lfloor>log 2 \<bar>x\<bar>\<rfloor> (- 1022)"

definition round_double :: "real \<Rightarrow> real" where
  "round_double x =
     (if x = 0 then 0
      else of_int (round_even (x / 2 powr of_int (binade x - 52))) * 2 powr of_int (binade x - 52))"

text \<open>The double that the literal \<open>1e-320\<close> denotes, a subnormal number.\<close>

definition tiny_redeem :: real where
  "tiny_redeem = 2024 / 2 ^ 1074"

section \<open>Basic facts\<close>

subsection \<open>Maps\<close>

lemma sum_values_eq: "sum_values m = sum_list (map snd m)"
proof -
  have "foldl (\<lambda>s (k, v). s + v) a m = a + sum_list (map snd m)" for a :: real
    by (induction m arbitrary: a) (auto simp: algebra_simps)
  then show ?thesis by (simp add: sum_values_def)
qed

lemma fst_subscript: "fst (subscript m k) = value_of m k"
  by (simp add: subscript_def value_of_def split: option.splits)


lemma map_of_subscript:
  "map_of (snd (subscript m k)) k' =
     (if k' = k \<and> map_of m k = None then Some 0 else map_of m k')"
  by (simp add: subscript_def update_conv' split: option.splits)


lemma subscript_present: "k \<in> fst ` set m \<Longrightarrow> snd (subscript m k) = m"
  by (auto simp: subscript_def map_of_eq_None_iff split: option.splits)

lemma subscript_nonempty: "snd (subscript m k) \<noteq> []"
  by (auto simp: subscript_def split: option.splits)

lemma value_of_update:
  "value_of (AList.update k v m) k' = (if k' = k then v else value_of m k')"
  by (simp add: value_of_def update_conv')


lemma map_of_add_at:
  "map_of (add_at m k x) k' = (if k' = k then Some (value_of m k + x) else map_of m k')"
  by (simp add: add_at_def split_beta update_conv' fst_subscript map_of_subscript)

lemma value_of_add_at:
  "value_of (add_at m k x) k' = (if k' = k then value_of m k + x else value_of m k')"
  by (simp add: value_of_def map_of_add_at)


subsection \<open>\<open>set_invariant\<close>\<close>

lemma sil_tokens: "tokens (set_invariant_loop ts p) = tokens p"
  by (induction ts arbitrary: p) (simp_all add: split_beta)


lemma sil_weights_nonempty: "weights p \<noteq> [] \<Longrightarrow> weights (set_invariant_loop ts p) \<noteq> []"
  by (induction ts arbitrary: p) (simp_all add: split_beta subscript_nonempty)

lemma sil_weights_same:
  "set ts \<subseteq> fst ` set (weights p) \<Longrightarrow> weights (set_invariant_loop ts p) = weights p"
  by (induction ts arbitrary: p) (simp_all add: split_beta subscript_present)



lemma sil_map_of_balances:
  "map_of (balances p) k = Some v \<Longrightarrow> map_of (balances (set_invariant_loop ts p)) k = Some v"
proof (induction ts arbitrary: p)
  case Nil
  then show ?case by simp
next
  case (Cons t ts)
  have "map_of (snd (subscript (balances p) t)) k = Some v"
    using Cons.prems by (auto simp: map_of_subscript)
  then show ?case
    by (simp add: split_beta Cons.IH)
qed


lemma set_invariant_tokens: "tokens (snd (set_invariant p)) = tokens p"
  by (simp add: set_invariant_def Let_def sil_tokens)


lemma set_invariant_weights_nonempty:
  "weights p \<noteq> [] \<Longrightarrow> weights (snd (set_invariant p)) \<noteq> []"
  by (simp add: set_invariant_def Let_def sil_weights_nonempty)

lemma set_invariant_weights_same:
  "set (tokens p) \<subseteq> fst ` set (weights p) \<Longrightarrow> weights (snd (set_invariant p)) = weights p"
  by (simp add: set_invariant_def Let_def sil_weights_same)

lemma set_invariant_map_of_balances:
  "map_of (balances p) k = Some v \<Longrightarrow> map_of (balances (snd (set_invariant p))) k = Some v"
  by (simp add: set_invariant_def Let_def sil_map_of_balances)





subsection \<open>The example pool\<close>

lemma pool_xy_initialized:
  "InfinityPool [''X'', ''Y''] = Inr p0 \<Longrightarrow>
   initialize p0 [(''X'', 100), (''Y'', 100)] = (Inr (), pool_xy)"
  by (auto simp: InfinityPool_def initialize_def at_key_def sum_values_def pool_xy_def)

lemma tokens_pool_xy: "tokens pool_xy = [''X'', ''Y'']"
  by (simp add: pool_xy_def)

lemma weights_pool_xy_nonempty: "weights pool_xy \<noteq> []"
  by (simp add: pool_xy_def)


lemma map_of_pool_xy:
  "map_of (weights pool_xy) ''X'' = Some (1 / 2)" "map_of (weights pool_xy) ''Y'' = Some (1 / 2)"
  "map_of (balances pool_xy) ''X'' = Some 100" "map_of (balances pool_xy) ''Y'' = Some 100"
  by (simp_all add: pool_xy_def)

section \<open>Binary64 rounding at concrete values\<close>


lemma binade_subnormal:
  assumes "x \<noteq> 0" and "\<bar>x\<bar> < 2 powr (- 1022)"
  shows "binade x = - 1022"
proof -
  have "log 2 \<bar>x\<bar> < - 1022"
    using assms by (simp add: log_less_iff)
  then have "\<lfloor>log 2 \<bar>x\<bar>\<rfloor> < - 1022"
    by (simp add: floor_less_iff)
  then show ?thesis
    by (simp add: binade_def)
qed

lemma round_even_below_half: "of_int n \<le> y \<Longrightarrow> y < of_int n + 1 / 2 \<Longrightarrow> round_even y = n"
proof -
  assume a: "of_int n \<le> y" "y < of_int n + 1 / 2"
  then have "\<lfloor>y\<rfloor> = n"
    by (simp add: floor_eq_iff)
  then show ?thesis
    using a by (simp add: round_even_def Let_def)
qed


lemma round_double_eq:
  assumes "x \<noteq> 0" and "binade x = e" and "2 powr of_int (e - 52) = (u :: real)"
    and "round_even (x / u) = n"
  shows "round_double x = of_int n * u"
  using assms by (simp add: round_double_def)

lemma ulp_subnormal: "2 powr of_int (- 1022 - 52) = (1 / 2 ^ 1074 :: real)"
  by (simp add: powr_neg_numeral)



lemma round_underflow: "round_double (tiny_redeem / SUPPLY) = 0"
proof -
  let ?x = "tiny_redeem / SUPPLY :: real"
  have n: "?x \<noteq> 0"
    by (simp add: SUPPLY_def tiny_redeem_def)
  have b: "binade ?x = - 1022"
    using n by (rule binade_subnormal) (simp add: SUPPLY_def tiny_redeem_def powr_neg_numeral)
  have q: "?x / (1 / 2 ^ 1074) = 2024 / 10 ^ 15"
    by (simp add: SUPPLY_def tiny_redeem_def)
  have r: "round_even (?x / (1 / 2 ^ 1074)) = 0"
    unfolding q by (rule round_even_below_half) simp_all
  show ?thesis
    using round_double_eq [OF n b ulp_subnormal r] by simp
qed




section \<open>What each operation leaves unchanged\<close>

subsection \<open>The loops\<close>

text \<open>For each loop (\<open>il\<close>: \<open>initialize\<close>, \<open>wal\<close>: \<open>withdraw_all\<close>, \<open>wyl\<close>:
  \<open>withdraw_any\<close>, \<open>el\<close>: \<open>equalize\<close>): the tokens and the issued shares stay, and
  the weights stay non-empty, and stay as they are once every token has a weight.\<close>

lemma shares_of_first_snd: "snd (shares_of_first p a) = p"
  by (simp add: shares_of_first_def split: list.splits sum.splits)

lemma il_tokens: "tokens (snd (initialize_loop ts a p)) = tokens p"
  by (induction ts arbitrary: p) (simp_all split: sum.splits)

lemma il_shares: "shares_issued (snd (initialize_loop ts a p)) = shares_issued p"
  by (induction ts arbitrary: p) (simp_all split: sum.splits)

lemma il_weights_nonempty:
  "weights p \<noteq> [] \<Longrightarrow> weights (snd (initialize_loop ts a p)) \<noteq> []"
  by (induction ts arbitrary: p) (simp_all split: sum.splits)

lemma il_keys_mono:
  "fst ` set (weights p) \<subseteq> fst ` set (weights (snd (initialize_loop ts a p)))"
proof (induction ts arbitrary: p)
  case Nil
  show ?case by simp
next
  case (Cons t ts)
  show ?case
  proof (cases "at_key a t")
    case (Inl e)
    then show ?thesis by simp
  next
    case (Inr v)
    let ?q = "p\<lparr>weights := AList.update t (v / sum_values a) (weights p)\<rparr>"
    have "fst ` set (weights p) \<subseteq> fst ` set (weights ?q)"
      by (simp add: dom_update subset_insertI)
    also have "\<dots> \<subseteq> fst ` set (weights (snd (initialize_loop ts a ?q)))"
      by (rule Cons.IH)
    finally show ?thesis
      using Inr by simp
  qed
qed

lemma il_success_keys:
  "fst (initialize_loop ts a p) = Inr u \<Longrightarrow>
   set ts \<subseteq> fst ` set (weights (snd (initialize_loop ts a p)))"
proof (induction ts arbitrary: p)
  case Nil
  show ?case by simp
next
  case (Cons t ts)
  show ?case
  proof (cases "at_key a t")
    case (Inl e)
    then show ?thesis using Cons.prems by simp
  next
    case (Inr v)
    let ?q = "p\<lparr>weights := AList.update t (v / sum_values a) (weights p)\<rparr>"
    have "t \<in> fst ` set (weights ?q)"
      by (simp add: dom_update)
    then have "t \<in> fst ` set (weights (snd (initialize_loop ts a ?q)))"
      using il_keys_mono [of ?q ts a] by blast
    moreover have "set ts \<subseteq> fst ` set (weights (snd (initialize_loop ts a ?q)))"
      using Cons.prems Inr by (intro Cons.IH) simp
    ultimately show ?thesis
      using Inr by simp
  qed
qed

lemma wal_tokens: "tokens (snd (withdraw_all_loop ts r out p)) = tokens p"
  by (induction ts arbitrary: p out) (simp_all add: split_beta Let_def)


lemma wal_weights_nonempty:
  "weights p \<noteq> [] \<Longrightarrow> weights (snd (withdraw_all_loop ts r out p)) \<noteq> []"
  by (induction ts arbitrary: p out) (simp_all add: split_beta Let_def subscript_nonempty)

lemma wal_weights_same:
  "set ts \<subseteq> fst ` set (weights p) \<Longrightarrow> weights (snd (withdraw_all_loop ts r out p)) = weights p"
  by (induction ts arbitrary: p out) (simp_all add: split_beta Let_def subscript_present)

lemma wyl_tokens: "tokens (snd (withdraw_any_loop ts r ra out p)) = tokens p"
  by (induction ts arbitrary: p out) (simp_all add: split_beta Let_def split: sum.splits)

lemma wyl_shares: "shares_issued (snd (withdraw_any_loop ts r ra out p)) = shares_issued p"
  by (induction ts arbitrary: p out) (simp_all add: split_beta Let_def split: sum.splits)

lemma wyl_weights: "weights (snd (withdraw_any_loop ts r ra out p)) = weights p"
  by (induction ts arbitrary: p out) (simp_all add: split_beta Let_def split: sum.splits)

lemma el_tokens: "tokens (snd (equalize_loop ts tw inputs out p)) = tokens p"
  by (induction ts arbitrary: p out) (simp_all add: split_beta Let_def split: sum.splits)

lemma el_shares: "shares_issued (snd (equalize_loop ts tw inputs out p)) = shares_issued p"
  by (induction ts arbitrary: p out) (simp_all add: split_beta Let_def split: sum.splits)

lemma el_weights_nonempty:
  "weights p \<noteq> [] \<Longrightarrow> weights (snd (equalize_loop ts tw inputs out p)) \<noteq> []"
  by (induction ts arbitrary: p out)
    (simp_all add: split_beta Let_def subscript_nonempty split: sum.splits)

lemma el_weights_same:
  "set ts \<subseteq> fst ` set (weights p) \<Longrightarrow>
   weights (snd (equalize_loop ts tw inputs out p)) = weights p"
  by (induction ts arbitrary: p out)
    (simp_all add: split_beta Let_def subscript_present split: sum.splits)

lemma il_resultD:
  assumes "initialize_loop ts a p = (res, p')"
  shows "tokens p' = tokens p" and "shares_issued p' = shares_issued p"
    and "weights p \<noteq> [] \<Longrightarrow> weights p' \<noteq> []"
  using assms il_tokens [of ts a p] il_shares [of ts a p] il_weights_nonempty [of p ts a]
  by simp_all

lemma wyl_resultD:
  assumes "withdraw_any_loop ts r ra out p = (res, p')"
  shows "tokens p' = tokens p" and "shares_issued p' = shares_issued p"
    and "weights p' = weights p"
  using assms wyl_tokens [of ts r ra out p] wyl_shares [of ts r ra out p]
    wyl_weights [of ts r ra out p]
  by simp_all

lemma el_resultD:
  assumes "equalize_loop ts tw inputs out p = (res, p')"
  shows "tokens p' = tokens p" and "shares_issued p' = shares_issued p"
    and "weights p \<noteq> [] \<Longrightarrow> weights p' \<noteq> []"
    and "set ts \<subseteq> fst ` set (weights p) \<Longrightarrow> weights p' = weights p"
  using assms el_tokens [of ts tw inputs out p] el_shares [of ts tw inputs out p]
    el_weights_nonempty [of p ts tw inputs out] el_weights_same [of ts p tw inputs out]
  by simp_all

subsection \<open>Tokens\<close>

lemma initialize_tokens: "tokens (snd (initialize p a)) = tokens p"
  by (auto simp: initialize_def split: prod.splits sum.splits dest: il_resultD(1))

lemma deposit_all_tokens: "tokens (snd (deposit_all p a)) = tokens p"
  by (simp add: deposit_all_def shares_of_first_snd set_invariant_tokens
      split: sum.splits bool.splits)

lemma deposit_one_tokens: "tokens (snd (deposit_one p a)) = tokens p"
  by (auto simp: deposit_one_def Let_def set_invariant_tokens
      split: option.splits prod.splits sum.splits)

lemma deposit_any_tokens: "tokens (snd (deposit_any p a)) = tokens p"
  by (simp add: deposit_any_def shares_of_first_snd set_invariant_tokens
      split: sum.splits bool.splits)

lemma withdraw_all_tokens: "tokens (snd (withdraw_all p r)) = tokens p"
  by (simp add: withdraw_all_def Let_def split_beta set_invariant_tokens wal_tokens)

lemma withdraw_one_tokens: "tokens (snd (withdraw_one p t r)) = tokens p"
  by (simp add: withdraw_one_def Let_def split_beta set_invariant_tokens)

lemma withdraw_any_tokens: "tokens (snd (withdraw_any p r ra)) = tokens p"
  by (auto simp: withdraw_any_def Let_def set_invariant_tokens
      split: sum.splits bool.splits prod.splits dest: wyl_resultD(1))

lemma swap_tokens: "tokens (snd (swap p t_in t_out a)) = tokens p"
  by (simp add: swap_def Let_def split_beta set_invariant_tokens)

lemma equalize_tokens: "tokens (snd (equalize p i ro)) = tokens p"
  by (auto simp: equalize_def set_invariant_tokens split: sum.splits bool.splits prod.splits
      dest: el_resultD(1))

subsection \<open>Issued shares, and weights that stay as they are\<close>


lemma initialize_shares_failure:
  "fst (initialize p a) = Inl e \<Longrightarrow> shares_issued (snd (initialize p a)) = shares_issued p"
  by (auto simp: initialize_def split: prod.splits sum.splits if_splits dest: il_resultD(2))








lemma set_invariant_weights_kept:
  assumes "tokens q = tokens p" and "weights q = weights p"
    and "set (tokens p) \<subseteq> fst ` set (weights p)"
  shows "weights (snd (set_invariant q)) = weights p"
  using set_invariant_weights_same [of q] assms by simp

lemma deposit_all_weights_same:
  "set (tokens p) \<subseteq> fst ` set (weights p) \<Longrightarrow> weights (snd (deposit_all p a)) = weights p"
  by (simp add: deposit_all_def shares_of_first_snd set_invariant_weights_same
      split: sum.splits bool.splits)

lemma deposit_one_weights_same:
  "set (tokens p) \<subseteq> fst ` set (weights p) \<Longrightarrow> weights (snd (deposit_one p a)) = weights p"
  by (auto simp: deposit_one_def Let_def set_invariant_weights_same
      split: option.splits prod.splits sum.splits)

lemma deposit_any_weights_same:
  "set (tokens p) \<subseteq> fst ` set (weights p) \<Longrightarrow> weights (snd (deposit_any p a)) = weights p"
  by (simp add: deposit_any_def shares_of_first_snd set_invariant_weights_same
      split: sum.splits bool.splits)

lemma withdraw_all_weights_same:
  "set (tokens p) \<subseteq> fst ` set (weights p) \<Longrightarrow> weights (snd (withdraw_all p r)) = weights p"
  by (simp add: withdraw_all_def Let_def split_beta set_invariant_weights_same
      wal_weights_same wal_tokens)

lemma withdraw_one_weights_same:
  "set (tokens p) \<subseteq> fst ` set (weights p) \<Longrightarrow> t \<in> set (tokens p) \<Longrightarrow>
   weights (snd (withdraw_one p t r)) = weights p"
proof -
  assume c: "set (tokens p) \<subseteq> fst ` set (weights p)" and t: "t \<in> set (tokens p)"
  have s: "snd (subscript (weights p) t) = weights p"
    using c t by (intro subscript_present) blast
  show ?thesis
    by (simp add: withdraw_one_def Let_def split_beta s set_invariant_weights_kept [OF _ _ c])
qed

lemma withdraw_any_weights_same:
  "set (tokens p) \<subseteq> fst ` set (weights p) \<Longrightarrow> weights (snd (withdraw_any p r ra)) = weights p"
proof -
  assume c: "set (tokens p) \<subseteq> fst ` set (weights p)"
  show ?thesis
    by (auto simp: withdraw_any_def Let_def wyl_resultD set_invariant_weights_kept [OF _ _ c]
        split: sum.splits bool.splits prod.splits)
qed

lemma swap_weights_same:
  "set (tokens p) \<subseteq> fst ` set (weights p) \<Longrightarrow> t_in \<in> set (tokens p) \<Longrightarrow>
   t_out \<in> set (tokens p) \<Longrightarrow> weights (snd (swap p t_in t_out a)) = weights p"
proof -
  assume c: "set (tokens p) \<subseteq> fst ` set (weights p)"
    and t: "t_in \<in> set (tokens p)" "t_out \<in> set (tokens p)"
  have s: "snd (subscript (weights p) t_in) = weights p"
    "snd (subscript (weights p) t_out) = weights p"
    using c t by (auto intro: subscript_present)
  show ?thesis
    by (simp add: swap_def Let_def split_beta s set_invariant_weights_kept [OF _ _ c])
qed

lemma equalize_weights_same:
  "set (tokens p) \<subseteq> fst ` set (weights p) \<Longrightarrow> weights (snd (equalize p i ro)) = weights p"
proof -
  assume c: "set (tokens p) \<subseteq> fst ` set (weights p)"
  have w: "weights p' = weights p" and t: "tokens p' = tokens p"
    if "equalize_loop (tokens p) tw i [] p = (res, p')" for tw res p'
    using el_resultD(1,4) [OF that] c by simp_all
  show ?thesis
    by (auto simp: equalize_def w t set_invariant_weights_kept [OF _ _ c]
        split: sum.splits bool.splits prod.splits)
qed

lemma initialize_covers:
  "fst (initialize p a) = Inr u \<Longrightarrow>
   set (tokens (snd (initialize p a))) \<subseteq> fst ` set (weights (snd (initialize p a)))"
  using il_success_keys [of "tokens p" a "p\<lparr>balances := a\<rparr>"]
    il_tokens [of "tokens p" a "p\<lparr>balances := a\<rparr>"]
  by (auto simp: initialize_def split: prod.splits sum.splits if_splits)

section \<open>\<open>swap\<close>\<close>




subsection \<open>The invariant under a swap\<close>










subsection \<open>The worked example\<close>





section \<open>\<open>withdraw_all\<close> beyond the issued shares\<close>

text \<open>
  Claim C4: when \<open>redeem / SUPPLY\<close> exceeds \<open>shares_issued\<close>, \<open>withdraw_all(redeem)\<close> throws
  \<open>invalid_argument\<close> and the pool (balances, issued shares, invariant and the rest) is
  what it was.
\<close>

theorem withdraw_all_exceeding:
  "redeem / SUPPLY > shares_issued p \<Longrightarrow> withdraw_all p redeem = (Inl InvalidArgument, p)"
  by (simp add: withdraw_all_def Let_def)

theorem withdraw_all_exceeding_witness:
  "10 ^ 24 / SUPPLY > shares_issued pool_xy \<and>
   withdraw_all pool_xy (10 ^ 24) = (Inl InvalidArgument, pool_xy)"
proof -
  have h: "10 ^ 24 / SUPPLY > shares_issued pool_xy"
    by (simp add: SUPPLY_def FIRST_def pool_xy_def)
  show ?thesis
    using h withdraw_all_exceeding [OF h] by simp
qed

section \<open>\<open>initialize\<close> with a key that is not a token\<close>

text \<open>
  Claim C5 at the input \<open>tokens = [X, Y]\<close>, \<open>initialize({X: 1, Z: 1})\<close>: the map has the
  size of \<open>tokens\<close> and positive amounts, so both guards pass; \<open>balances\<close> is overwritten,
  the weight of \<open>X\<close> is stored, and \<open>amount_in.at("Y")\<close> throws \<open>std::out_of_range\<close>.
\<close>

theorem initialize_wrong_key:
  "initialize
     \<lparr>tokens = [''X'', ''Y''], weights = [], balances = [], shares_issued = 0, invariant = 0\<rparr>
     [(''X'', 1), (''Z'', 1)] =
   (Inl OutOfRange,
    \<lparr>tokens = [''X'', ''Y''], weights = [(''X'', 1 / 2)], balances = [(''X'', 1), (''Z'', 1)],
     shares_issued = 0, invariant = 0\<rparr>)"
  by (simp add: initialize_def at_key_def sum_values_def)

section \<open>Before weights are set\<close>

lemma pool_new_constructed: "InfinityPool [''X'', ''Y''] = Inr pool_new"
  by (simp add: InfinityPool_def pool_new_def)

lemma unweighted_guard:
  assumes "weights p = []"
  shows "deposit_one p amount_in = (Inl InvalidArgument, p)"
    and "deposit_any p amount_in = (Inl InvalidArgument, p)"
    and "withdraw_one p t redeem = (Inl InvalidArgument, p)"
    and "withdraw_any p redeem ratios = (Inl InvalidArgument, p)"
    and "swap p t_in t_out a = (Inl InvalidArgument, p)"
    and "equalize p inputs ratio_out = (Inl InvalidArgument, p)"
  using assms
  by (simp_all add: deposit_one_def deposit_any_def withdraw_one_def withdraw_any_def swap_def
      equalize_def)

text \<open>
  Claim C8 at the input \<open>InfinityPool({"X", "Y"})\<close>, \<open>withdraw_all(1e-320)\<close>: the six
  other operations test \<open>weights.empty()\<close> and throw \<open>invalid_argument\<close>, whatever their
  arguments; \<open>withdraw_all\<close> has no such test.  Its first guard passes since the redeem is
  positive, and its second since \<open>redeem / SUPPLY\<close> is \<open>0.0\<close> in binary64, which does not
  exceed the issued shares, \<open>0.0\<close>.  Its loop then inserts a zero weight and a zero balance
  for each token, and the call returns.
\<close>

theorem withdraw_all_unguarded:
  "deposit_one pool_new amount_in = (Inl InvalidArgument, pool_new) \<and>
   deposit_any pool_new amount_in = (Inl InvalidArgument, pool_new) \<and>
   withdraw_one pool_new t redeem = (Inl InvalidArgument, pool_new) \<and>
   withdraw_any pool_new redeem ratios = (Inl InvalidArgument, pool_new) \<and>
   swap pool_new t_in t_out a = (Inl InvalidArgument, pool_new) \<and>
   equalize pool_new inputs ratio_out = (Inl InvalidArgument, pool_new) \<and>
   \<not> tiny_redeem \<le> 0 \<and>
   round_double (tiny_redeem / SUPPLY) = 0 \<and>
   \<not> round_double (tiny_redeem / SUPPLY) > shares_issued pool_new \<and>
   withdraw_all_loop (tokens pool_new) (round_double (tiny_redeem / SUPPLY)) [] pool_new =
     ([(''X'', 0), (''Y'', 0)],
      pool_new\<lparr>weights := [(''X'', 0), (''Y'', 0)], balances := [(''X'', 0), (''Y'', 0)]\<rparr>)"
proof -
  have w: "weights pool_new = []" and s: "shares_issued pool_new = 0"
    by (simp_all add: pool_new_def)
  have t: "\<not> tiny_redeem \<le> 0"
    by (simp add: tiny_redeem_def)
  have l: "withdraw_all_loop (tokens pool_new) 0 [] pool_new =
     ([(''X'', 0), (''Y'', 0)],
      pool_new\<lparr>weights := [(''X'', 0), (''Y'', 0)], balances := [(''X'', 0), (''Y'', 0)]\<rparr>)"
    by (simp add: pool_new_def subscript_def)
  show ?thesis
    using t by (simp add: unweighted_guard [OF w] round_underflow s l)
qed

section \<open>Weights after initialization\<close>

lemma pool_xy_covered: "set (tokens pool_xy) \<subseteq> fst ` set (weights pool_xy)"
  by (simp add: pool_xy_def)

text \<open>
  Claim C9: once every token has a weight (which a successful \<open>initialize\<close> establishes,
  see \<open>initialize_covers\<close>), no deposit, withdrawal, swap or equalize call changes
  \<open>weights\<close>, whether it returns or throws, provided the token arguments are pool tokens.
\<close>

theorem weights_immutable:
  assumes "set (tokens p) \<subseteq> fst ` set (weights p)"
    and "t \<in> set (tokens p)" and "t_in \<in> set (tokens p)" and "t_out \<in> set (tokens p)"
  shows "weights (snd (deposit_all p amount_in)) = weights p \<and>
         weights (snd (deposit_one p amount_in)) = weights p \<and>
         weights (snd (deposit_any p amount_in)) = weights p \<and>
         weights (snd (withdraw_all p redeem)) = weights p \<and>
         weights (snd (withdraw_one p t redeem)) = weights p \<and>
         weights (snd (withdraw_any p redeem ratios)) = weights p \<and>
         weights (snd (swap p t_in t_out a)) = weights p \<and>
         weights (snd (equalize p inputs ratio_out)) = weights p"
  using assms
  by (simp add: deposit_all_weights_same deposit_one_weights_same deposit_any_weights_same
      withdraw_all_weights_same withdraw_one_weights_same withdraw_any_weights_same
      swap_weights_same equalize_weights_same)

theorem weights_immutable_witness:
  "fst (initialize pool_new [(''X'', 100), (''Y'', 100)]) = Inr () \<and>
   snd (initialize pool_new [(''X'', 100), (''Y'', 100)]) = pool_xy \<and>
   ''X'' \<in> set (tokens pool_xy) \<and> ''Y'' \<in> set (tokens pool_xy) \<and>
   weights (snd (deposit_all pool_xy [(''X'', 1), (''Y'', 1)])) = weights pool_xy \<and>
   weights (snd (deposit_one pool_xy [(''X'', 1)])) = weights pool_xy \<and>
   weights (snd (deposit_any pool_xy [(''X'', 1), (''Y'', 1)])) = weights pool_xy \<and>
   weights (snd (withdraw_all pool_xy 1)) = weights pool_xy \<and>
   weights (snd (withdraw_one pool_xy ''X'' 1)) = weights pool_xy \<and>
   weights (snd (withdraw_any pool_xy 1 [(''X'', 1), (''Y'', 1)])) = weights pool_xy \<and>
   weights (snd (swap pool_xy ''X'' ''Y'' 10)) = weights pool_xy \<and>
   weights (snd (equalize pool_xy [(''X'', 1), (''Y'', 1)] [(''X'', 1), (''Y'', 1)])) =
     weights pool_xy"
proof -
  have i: "initialize pool_new [(''X'', 100), (''Y'', 100)] = (Inr (), pool_xy)"
    using pool_new_constructed by (rule pool_xy_initialized)
  have t: "''X'' \<in> set (tokens pool_xy)" "''Y'' \<in> set (tokens pool_xy)"
    by (simp_all add: tokens_pool_xy)
  show ?thesis
    using i t weights_immutable [OF pool_xy_covered t(1) t(1) t(2)] by simp
qed

section \<open>Issued shares\<close>









section \<open>\<open>deposit_one\<close>\<close>

lemma filter_single_find: "filter P xs = [x] \<Longrightarrow> find P xs = Some x"
  by (induction xs) (auto split: if_splits simp: filter_empty_conv)

lemma filter_single_mem: "filter P xs = [x] \<Longrightarrow> x \<in> set xs \<and> P x"
proof -
  assume "filter P xs = [x]"
  then have "x \<in> set (filter P xs)" by simp
  then show ?thesis by simp
qed

lemma find_filter_length:
  "length (filter P xs) = 1 \<Longrightarrow> \<exists>x. filter P xs = [x]"
  by (cases "filter P xs") simp_all

lemma at_key_distinct: "distinct (map fst m) \<Longrightarrow> (k, v) \<in> set m \<Longrightarrow> at_key m k = Inr v"
  by (simp add: at_key_def)

text \<open>
  Claim C6: on a pool with weights, \<open>deposit_one\<close> throws \<open>invalid_argument\<close> (and changes
  nothing) unless exactly one entry of the map is non-zero and that entry is positive.
  When that entry is \<open>(k, v)\<close> and \<open>k\<close> has the balance \<open>b\<close>, the call returns
  \<open>v * SUPPLY / b\<close>, computed from the balance before the deposit, and leaves \<open>k\<close> with the
  balance \<open>b + v\<close>.
\<close>

theorem deposit_one_spec:
  assumes w: "weights p \<noteq> []" and d: "distinct (map fst amount_in)"
  shows "(\<not> (\<exists>k v. filter (\<lambda>(k, v). v \<noteq> 0) amount_in = [(k, v)] \<and> 0 < v) \<longrightarrow>
            deposit_one p amount_in = (Inl InvalidArgument, p)) \<and>
         (\<forall>k v b. filter (\<lambda>(k, v). v \<noteq> 0) amount_in = [(k, v)] \<and> 0 < v \<and>
                  map_of (balances p) k = Some b \<longrightarrow>
            fst (deposit_one p amount_in) = Inr (v * SUPPLY / b) \<and>
            map_of (balances (snd (deposit_one p amount_in))) k = Some (b + v))"
proof (rule conjI; (intro allI)?; rule impI)
  assume n: "\<not> (\<exists>k v. filter (\<lambda>(k, v). v \<noteq> 0) amount_in = [(k, v)] \<and> 0 < v)"
  show "deposit_one p amount_in = (Inl InvalidArgument, p)"
  proof (cases "length (filter (\<lambda>(k, v). v \<noteq> 0) amount_in) = 1")
    case False
    then show ?thesis using w by (simp add: deposit_one_def)
  next
    case True
    then obtain k v where f: "filter (\<lambda>(k, v). v \<noteq> 0) amount_in = [(k, v)]"
      using find_filter_length [OF True] by auto
    have m: "(k, v) \<in> set amount_in" "v \<noteq> 0"
      using filter_single_mem [OF f] by auto
    have neg: "v < 0"
      using n f m by force
    show ?thesis
      using w True neg
      by (simp add: deposit_one_def filter_single_find [OF f] at_key_distinct [OF d m(1)])
  qed
next
  fix k v b
  assume h: "filter (\<lambda>(k, v). v \<noteq> 0) amount_in = [(k, v)] \<and> 0 < v \<and>
             map_of (balances p) k = Some b"
  then have f: "filter (\<lambda>(k, v). v \<noteq> 0) amount_in = [(k, v)]" and v: "0 < v"
    and b: "map_of (balances p) k = Some b"
    by simp_all
  have m: "(k, v) \<in> set amount_in"
    using filter_single_mem [OF f] by auto
  have l: "length (filter (\<lambda>(k, v). v \<noteq> 0) amount_in) = 1"
    by (simp add: f)
  have eq: "deposit_one p amount_in =
      (Inr (v * SUPPLY / b),
       snd (set_invariant (p\<lparr>balances := AList.update k (b + v) (balances p)\<rparr>)))"
  proof -
    have ak: "at_key amount_in k = Inr v"
      by (rule at_key_distinct [OF d m])
    have bk: "at_key (balances p) k = Inr b"
      using b by (simp add: at_key_def)
    show ?thesis
      using w l v by (simp add: deposit_one_def filter_single_find [OF f] ak bk Let_def)
  qed
  have "map_of (AList.update k (b + v) (balances p)) k = Some (b + v)"
    by (simp add: update_conv')
  then show "fst (deposit_one p amount_in) = Inr (v * SUPPLY / b) \<and>
        map_of (balances (snd (deposit_one p amount_in))) k = Some (b + v)"
    by (simp add: eq set_invariant_map_of_balances)
qed

theorem deposit_one_spec_witness:
  "weights pool_xy \<noteq> [] \<and>
   deposit_one pool_xy [(''X'', 10), (''Y'', 5)] = (Inl InvalidArgument, pool_xy) \<and>
   deposit_one pool_xy [(''X'', - 10), (''Y'', 0)] = (Inl InvalidArgument, pool_xy) \<and>
   fst (deposit_one pool_xy [(''X'', 10), (''Y'', 0)]) = Inr (10 * SUPPLY / 100) \<and>
   map_of (balances (snd (deposit_one pool_xy [(''X'', 10), (''Y'', 0)]))) ''X'' = Some 110"
proof -
  have d: "distinct (map fst [(''X'', 10 :: real), (''Y'', 5)])"
    "distinct (map fst [(''X'', - 10 :: real), (''Y'', 0)])"
    "distinct (map fst [(''X'', 10 :: real), (''Y'', 0)])"
    by simp_all
  note w = weights_pool_xy_nonempty
  show ?thesis
    using w deposit_one_spec [OF w d(1)] deposit_one_spec [OF w d(2)]
      deposit_one_spec [OF w d(3)] map_of_pool_xy(3)
    by simp
qed

section \<open>Deposits into a pool without balances\<close>

lemma add_entries_other:
  "k \<notin> fst ` set es \<Longrightarrow> map_of (add_entries es bs) k = map_of bs k"
  by (induction es bs rule: add_entries.induct) (auto simp: map_of_add_at)

lemma add_entries_map_of:
  "distinct (map fst es) \<Longrightarrow> (k, v) \<in> set es \<Longrightarrow>
   map_of (add_entries es bs) k = Some (value_of bs k + v)"
proof (induction es bs rule: add_entries.induct)
  case (1 bs)
  then show ?case by simp
next
  case (2 k' v' es bs)
  show ?case
  proof (cases "k = k'")
    case True
    then have "v = v'" and "k \<notin> fst ` set es"
      using "2.prems" by (auto simp: rev_image_eqI)
    then show ?thesis
      using True by (simp add: add_entries_other map_of_add_at)
  next
    case False
    then have "(k, v) \<in> set es"
      using "2.prems" by auto
    then show ?thesis
      using "2.IH" "2.prems" False by (simp add: value_of_add_at)
  qed
qed

lemma check_deposit_ratio_empty:
  "balances p = [] \<Longrightarrow> check_deposit_ratio p amount_in tolerance = Inr True"
  by (simp add: check_deposit_ratio_def ratio_vector_def)

lemma list_ex_nonpositive:
  "list_all (\<lambda>(k, v). 0 < v) (m :: dmap) \<Longrightarrow> \<not> list_ex (\<lambda>(k, v). v \<le> 0) m"
  by (auto simp: list_all_iff list_ex_iff)

text \<open>
  Claim C10: while \<open>balances\<close> is empty, \<open>check_deposit_ratio\<close> returns true for every map
  and every tolerance; so \<open>deposit_all\<close> accepts every map of positive amounts that has an
  entry for \<open>tokens[0]\<close>, whatever its proportions, and returns \<open>SUPPLY\<close> shares.
\<close>

theorem empty_pool_deposit:
  assumes e: "balances p = []"
  shows "check_deposit_ratio p ratios tolerance = Inr True \<and>
         (\<forall>t0 ts. tokens p = t0 # ts \<and> distinct (map fst amount_in) \<and>
                  list_all (\<lambda>(k, v). 0 < v) amount_in \<and> t0 \<in> fst ` set amount_in \<longrightarrow>
            fst (deposit_all p amount_in) = Inr SUPPLY)"
proof (rule conjI; (intro allI)?; (rule impI)?)
  show "check_deposit_ratio p ratios tolerance = Inr True"
    using e by (rule check_deposit_ratio_empty)
next
  fix t0 ts
  assume h: "tokens p = t0 # ts \<and> distinct (map fst amount_in) \<and>
             list_all (\<lambda>(k, v). 0 < v) amount_in \<and> t0 \<in> fst ` set amount_in"
  then obtain v where v: "(t0, v) \<in> set amount_in"
    by auto
  have vpos: "0 < v"
    using h v by (auto simp: list_all_iff)
  have d: "distinct (map fst amount_in)"
    using h by simp
  have ak: "at_key amount_in t0 = Inr v"
    by (rule at_key_distinct [OF d v])
  let ?q = "p\<lparr>balances := add_entries amount_in (balances p)\<rparr>"
  have bq: "map_of (balances ?q) t0 = Some v"
    using add_entries_map_of [OF d v, of "[]"] e by (simp add: value_of_def)
  have sf: "fst (shares_of_first q amount_in) = Inr SUPPLY"
    if "tokens q = tokens p" and "map_of (balances q) t0 = Some v" for q
  proof -
    have "at_key (balances q) t0 = Inr v"
      using that(2) by (simp add: at_key_def)
    then show ?thesis
      using that(1) h vpos by (simp add: shares_of_first_def ak)
  qed
  have ok: "check_deposit_ratio p amount_in (1 / 10 ^ 6) = Inr True"
    using e by (rule check_deposit_ratio_empty)
  have "fst (shares_of_first ?q amount_in) = Inr SUPPLY"
    using bq by (intro sf) simp_all
  moreover have "fst (shares_of_first (snd (set_invariant ?q)) amount_in) = Inr SUPPLY"
    using bq by (intro sf) (simp_all add: set_invariant_tokens set_invariant_map_of_balances)
  ultimately show "fst (deposit_all p amount_in) = Inr SUPPLY"
    using h ok by (simp add: deposit_all_def list_ex_nonpositive)
qed

theorem empty_pool_deposit_witness:
  "balances pool_new = [] \<and>
   check_deposit_ratio pool_new [(''X'', 1), (''Y'', 1000)] (1 / 10 ^ 6) = Inr True \<and>
   fst (deposit_all pool_new [(''X'', 1), (''Y'', 1000)]) = Inr SUPPLY"
proof -
  have e: "balances pool_new = []"
    by (simp add: pool_new_def)
  have t: "tokens pool_new = [''X'', ''Y'']"
    by (simp add: pool_new_def)
  show ?thesis
    using e t empty_pool_deposit [OF e, of "[(''X'', 1), (''Y'', 1000)]" "1 / 10 ^ 6"
        "[(''X'', 1), (''Y'', 1000)]"]
    by simp
qed

section \<open>\<open>check_deposit_ratio\<close>\<close>

lemma pool_skew_initialized:
  "initialize pool_new [(''X'', 100), (''Y'', 200)] = (Inr (), pool_skew)"
  by (simp add: pool_new_def initialize_def at_key_def sum_values_def pool_skew_def)

lemma std_equal_same_length:
  "length xs = length ys \<Longrightarrow> std_equal P xs ys = Inr (list_all2 P xs ys)"
  by (induction xs ys rule: list_induct2) simp_all

lemma sum_values_scaled:
  "sum_values (map (\<lambda>(k, v). (k, c * v)) m) = c * sum_values m"
  by (simp add: sum_values_eq o_def split_beta sum_list_const_mult)

lemma ratio_vector_scaled:
  assumes "c \<noteq> 0"
  shows "ratio_vector (map (\<lambda>(k, v). (k, c * v)) m) = ratio_vector m"
  using assms by (simp add: ratio_vector_def sum_values_scaled o_def split_beta)

lemma ratio_vector_nth:
  "i < length m \<Longrightarrow> ratio_vector m ! i = snd (m ! i) / sum_values m"
  by (simp add: ratio_vector_def split_beta)

text \<open>
  Claim C7 at balances \<open>{X: 100, Y: 200}\<close>, iterated as \<open>X, Y\<close>: the map \<open>{X: 10, Y: 20}\<close>
  is one tenth of the balances; iterated as \<open>Y, X\<close> it fails the check, and \<open>deposit_all\<close>
  and \<open>deposit_any\<close> throw \<open>invalid_argument\<close>; iterated as \<open>X, Y\<close> it passes.  The map
  \<open>{X: 20, Y: 10}\<close>, which is not proportional, passes when iterated as \<open>Y, X\<close>.  The two
  ratio vectors are paired by the iteration order of the two maps, not by token.
\<close>

theorem check_deposit_ratio_iteration_order:
  "value_of [(''Y'', 20), (''X'', 10)] ''X'' = (1 / 10) * value_of (balances pool_skew) ''X'' \<and>
   value_of [(''Y'', 20), (''X'', 10)] ''Y'' = (1 / 10) * value_of (balances pool_skew) ''Y'' \<and>
   check_deposit_ratio pool_skew [(''Y'', 20), (''X'', 10)] (1 / 10 ^ 6) = Inr False \<and>
   fst (deposit_all pool_skew [(''Y'', 20), (''X'', 10)]) = Inl InvalidArgument \<and>
   fst (deposit_any pool_skew [(''Y'', 20), (''X'', 10)]) = Inl InvalidArgument \<and>
   check_deposit_ratio pool_skew [(''X'', 10), (''Y'', 20)] (1 / 10 ^ 6) = Inr True \<and>
   check_deposit_ratio pool_skew [(''Y'', 10), (''X'', 20)] (1 / 10 ^ 6) = Inr True"
proof -
  have c: "check_deposit_ratio pool_skew [(''Y'', 20), (''X'', 10)] (1 / 1000000) = Inr False"
    "check_deposit_ratio pool_skew [(''X'', 10), (''Y'', 20)] (1 / 1000000) = Inr True"
    "check_deposit_ratio pool_skew [(''Y'', 10), (''X'', 20)] (1 / 1000000) = Inr True"
    by (simp_all add: pool_skew_def check_deposit_ratio_def ratio_vector_def sum_values_def)
  have w: "weights pool_skew \<noteq> []"
    by (simp add: pool_skew_def)
  show ?thesis
    using w by (simp add: c deposit_all_def deposit_any_def)
      (simp add: value_of_def pool_skew_def)
qed

text \<open>When the map is iterated in the key order of \<open>balances\<close>, the check does compare
  token by token.\<close>

lemma check_deposit_ratio_same_order:
  assumes s: "sum_values (balances p) \<noteq> 0"
  shows "(0 < c \<and> 0 < tolerance \<longrightarrow>
            check_deposit_ratio p (map (\<lambda>(k, v). (k, c * v)) (balances p)) tolerance = Inr True) \<and>
         (map fst amount_in = map fst (balances p) \<and> sum_values amount_in \<noteq> 0 \<and>
          i < length amount_in \<and>
          tolerance < \<bar>snd (balances p ! i) / sum_values (balances p) -
                        snd (amount_in ! i) / sum_values amount_in\<bar> \<longrightarrow>
            check_deposit_ratio p amount_in tolerance = Inr False)"
proof (rule conjI; rule impI)
  assume h: "0 < c \<and> 0 < tolerance"
  let ?r = "ratio_vector (balances p)"
  have e: "std_equal (\<lambda>a b. \<bar>a - b\<bar> < tolerance) ?r ?r =
        Inr (list_all2 (\<lambda>a b. \<bar>a - b\<bar> < tolerance) ?r ?r)"
    by (rule std_equal_same_length) simp
  have a: "list_all2 (\<lambda>a b. \<bar>a - b\<bar> < tolerance) ?r ?r"
    using h by (simp add: list_all2_conv_all_nth)
  show "check_deposit_ratio p (map (\<lambda>(k, v). (k, c * v)) (balances p)) tolerance =
      Inr True"
    using h e a by (simp add: check_deposit_ratio_def ratio_vector_scaled)
next
  assume h: "map fst amount_in = map fst (balances p) \<and> sum_values amount_in \<noteq> 0 \<and>
          i < length amount_in \<and>
          tolerance < \<bar>snd (balances p ! i) / sum_values (balances p) -
                        snd (amount_in ! i) / sum_values amount_in\<bar>"
  let ?P = "\<lambda>a b :: real. \<bar>a - b\<bar> < tolerance"
  have len: "length amount_in = length (balances p)"
    using h by (metis length_map)
  have i: "i < length (balances p)" "i < length amount_in"
    using h len by simp_all
  have "\<not> ?P (ratio_vector (balances p) ! i) (ratio_vector amount_in ! i)"
    using h i by (simp add: ratio_vector_nth)
  then have "\<not> list_all2 ?P (ratio_vector (balances p)) (ratio_vector amount_in)"
    using i by (auto simp: list_all2_conv_all_nth ratio_vector_def)
  moreover have "std_equal ?P (ratio_vector (balances p)) (ratio_vector amount_in) =
      Inr (list_all2 ?P (ratio_vector (balances p)) (ratio_vector amount_in))"
    using len by (intro std_equal_same_length) (simp add: ratio_vector_def)
  ultimately show "check_deposit_ratio p amount_in tolerance = Inr False"
    by (simp add: check_deposit_ratio_def)
qed

end
